theory Spec2Isabelle
  imports Complex_Main "HOL-Library.Char_ord" "HOL-Library.List_Lexorder" "HOL-Library.Multiset"
begin

section \<open>Python values used by the affinity engine\<close>

text \<open>
  Item and transaction identifiers are opaque comparable tokens (strings in the data
  generators); the model is polymorphic in a linearly ordered type and is run on
  \<^typ>\<open>string\<close>. Counts are Python integers that start at 0 and are only ever incremented,
  so they are natural numbers. The metrics are Python floats; they are modelled in exact
  rational arithmetic, with every division the source performs written out together with
  the guard (or the missing guard) in front of it.
\<close>

datatype error = ZeroDivisionError | KeyError string | RuntimeError

text \<open>
  \<open>defaultdict(int)\<close>: a dictionary in insertion order. Reading a missing key through
  \<open>d[k]\<close> calls \<open>__missing__\<close>, which stores \<open>int() = 0\<close> under the key and returns it.
\<close>

type_synonym 'k counter = "('k \<times> nat) list"

fun setitem :: "'k counter \<Rightarrow> 'k \<Rightarrow> nat \<Rightarrow> 'k counter" where
  "setitem [] k v = [(k, v)]"
| "setitem ((k', v') # d) k v = (if k' = k then (k', v) # d else (k', v') # setitem d k v)"

definition getitem :: "'k counter \<Rightarrow> 'k \<Rightarrow> nat \<times> 'k counter" where
  "getitem d k = (case map_of d k of Some v \<Rightarrow> (v, d) | None \<Rightarrow> (0, setitem d k 0))"

text \<open>\<open>d[k] += 1\<close> is \<open>d[k] = d[k] + 1\<close>: a read through \<open>__getitem__\<close>, then a store.\<close>

definition incr :: "'k counter \<Rightarrow> 'k \<Rightarrow> 'k counter" where
  "incr d k = (let (v, d') = getitem d k in setitem d' k (v + 1))"

text \<open>
  The value a dictionary holds for a key without touching it (\<open>d.get(k, 0)\<close>); used to
  state properties, never by the code.
\<close>

definition count_of :: "'k counter \<Rightarrow> 'k \<Rightarrow> nat" where
  "count_of d k = (case map_of d k of Some v \<Rightarrow> v | None \<Rightarrow> 0)"

text \<open>\<open>itertools.combinations(xs, 2)\<close>: the pairs of positions \<open>i < j\<close>, in index order.\<close>

fun combinations2 :: "'a list \<Rightarrow> ('a \<times> 'a) list" where
  "combinations2 [] = []"
| "combinations2 (x # xs) = map (Pair x) xs @ combinations2 xs"

text \<open>
  \<open>max(d.items(), key=lambda x: x[1])\<close> on a non-empty dictionary: the first entry whose
  count is maximal.
\<close>

definition max_by_count :: "('k \<times> nat) \<Rightarrow> 'k counter \<Rightarrow> ('k \<times> nat)" where
  "max_by_count x xs = fold (\<lambda>y best. if snd best < snd y then y else best) xs x"

section \<open>The rule table\<close>

text \<open>
  One row of the result table. The source also stores \<open>direction\<close>, the two identifiers
  joined by an arrow, which is a rendering of \<open>product_a\<close> and \<open>product_b\<close> and is not
  kept as a field. The two name cells exist only once \<open>analyze\<close> has added the name
  columns; \<open>None\<close> is pandas' missing value.
\<close>

record 'a row =
  product_a :: 'a
  product_b :: 'a
  support :: rat
  confidence :: rat
  lift :: rat
  product_a_name :: "string option"
  product_b_name :: "string option"

record 'a DataFrame =
  columns :: "string list"
  rows :: "'a row list"

text \<open>
  \<open>pd.DataFrame(results)\<close> for a list of dictionaries: the columns are the keys of the
  dictionaries, so an empty list gives a frame with no columns at all.
\<close>

definition DataFrame_of :: "'a row list \<Rightarrow> 'a DataFrame" where
  "DataFrame_of results =
     \<lparr>columns = (if results = [] then []
                 else [''product_a'', ''product_b'', ''support'', ''confidence'', ''lift'',
                       ''direction'']),
      rows = results\<rparr>"

definition result_row :: "'a \<Rightarrow> 'a \<Rightarrow> rat \<Rightarrow> rat \<Rightarrow> rat \<Rightarrow> 'a row" where
  "result_row a b s c l =
     \<lparr>product_a = a, product_b = b, support = s, confidence = c, lift = l,
      product_a_name = None, product_b_name = None\<rparr>"

section \<open>AffinityCache (incremental\_affinity\_updater.py)\<close>

record 'a AffinityCache =
  total_transactions :: nat
  item_counts :: "'a counter"
  pair_counts :: "('a \<times> 'a) counter"
  all_products :: "'a set"

definition AffinityCache_init :: "'a AffinityCache" where
  "AffinityCache_init =
     \<lparr>total_transactions = 0, item_counts = [], pair_counts = [], all_products = {}\<rparr>"

text \<open>
  A basket is a Python set; it is given as the list of its elements in the order the
  set iterates, so a well-formed basket is a \<open>distinct\<close> list.
\<close>

definition update_with_new_transaction ::
  "'a::linorder AffinityCache \<Rightarrow> 'a list \<Rightarrow> 'a AffinityCache" where
  "update_with_new_transaction self basket =
     (let self1 = self\<lparr>total_transactions := total_transactions self + 1\<rparr>;
          self2 = fold (\<lambda>item s. s\<lparr>item_counts := incr (item_counts s) item,
                                    all_products := insert item (all_products s)\<rparr>)
                       basket self1;
          basket_list = sort basket;
          n = length basket_list
      in fold (\<lambda>i s.
                 fold (\<lambda>j s. s\<lparr>pair_counts :=
                                   incr (pair_counts s) (basket_list ! i, basket_list ! j)\<rparr>)
                      [i + 1 ..< n] s)
              [0 ..< n] self2)"

definition update_with_batch ::
  "'a::linorder AffinityCache \<Rightarrow> 'a list list \<Rightarrow> 'a AffinityCache" where
  "update_with_batch self baskets = fold (\<lambda>basket s. update_with_new_transaction s basket) baskets self"

text \<open>
  The queries read the two \<open>defaultdict\<close>s with \<open>d[k]\<close>, so each returns its value together
  with the cache as the read leaves it.
\<close>

definition get_support :: "'a::linorder AffinityCache \<Rightarrow> 'a list \<Rightarrow> rat \<times> 'a AffinityCache" where
  "get_support self itemset =
     (if total_transactions self = 0 then (0, self)
      else if length itemset = 1 then
        (let (c, d) = getitem (item_counts self) (itemset ! 0)
         in (of_nat c / of_nat (total_transactions self), self\<lparr>item_counts := d\<rparr>))
      else if length itemset = 2 then
        (let sorted_items = sort itemset;
             pair = (sorted_items ! 0, sorted_items ! 1);
             (c, d) = getitem (pair_counts self) pair
         in (of_nat c / of_nat (total_transactions self), self\<lparr>pair_counts := d\<rparr>))
      else (0, self))"

definition get_confidence ::
  "'a::linorder AffinityCache \<Rightarrow> 'a \<Rightarrow> 'a \<Rightarrow> rat \<times> 'a AffinityCache" where
  "get_confidence self antecedent consequent =
     (let (support_a, self1) = get_support self [antecedent]
      in if support_a = 0 then (0, self1)
         else (let (support_ab, self2) = get_support self1 [antecedent, consequent]
               in (support_ab / support_a, self2)))"

definition get_lift ::
  "'a::linorder AffinityCache \<Rightarrow> 'a \<Rightarrow> 'a \<Rightarrow> rat \<times> 'a AffinityCache" where
  "get_lift self antecedent consequent =
     (let (confidence, self1) = get_confidence self antecedent consequent;
          (support_b, self2) = get_support self1 [consequent]
      in if support_b = 0 then (0, self2) else (confidence / support_b, self2))"

text \<open>
  The body of the loop of \<open>get_updated_affinities\<close> for one entry of \<open>pair_counts\<close>: the
  rows it appends, or the exception of the unguarded division.
\<close>

definition affinity_step ::
  "rat \<Rightarrow> rat \<Rightarrow> 'a::linorder AffinityCache \<Rightarrow> ('a \<times> 'a) \<times> nat
     \<Rightarrow> (error + 'a row list) \<times> 'a AffinityCache" where
  "affinity_step min_support min_confidence self entry =
     (let (pair, count) = entry
      in if total_transactions self = 0 then (Inl ZeroDivisionError, self)
         else
           (let support = of_nat count / of_nat (total_transactions self)
            in if support < min_support then (Inr [], self)
               else
                 (let (product_a, product_b) = pair;
                      (confidence_ab, self1) = get_confidence self product_a product_b;
                      (confidence_ba, self2) = get_confidence self1 product_b product_a
                  in if confidence_ab < min_confidence \<and> confidence_ba < min_confidence
                     then (Inr [], self2)
                     else
                       (let (lift_ab, self3) = get_lift self2 product_a product_b;
                            (lift_ba, self4) = get_lift self3 product_b product_a
                        in (Inr [result_row product_a product_b support confidence_ab lift_ab,
                                 result_row product_b product_a support confidence_ba lift_ba],
                            self4)))))"

text \<open>
  The loop over \<open>self.pair_counts.items()\<close>. The queries only ever add keys, and the
  dictionary iterator raises \<open>RuntimeError\<close> at its next step once the size has changed,
  so the entries visited are those present when the loop starts; \<open>n\<close> is their number.
\<close>

fun affinities_loop ::
  "rat \<Rightarrow> rat \<Rightarrow> nat \<Rightarrow> (('a \<times> 'a) \<times> nat) list \<Rightarrow> 'a row list \<Rightarrow> 'a::linorder AffinityCache
     \<Rightarrow> (error + 'a row list) \<times> 'a AffinityCache" where
  "affinities_loop min_support min_confidence n [] results self =
     (if length (pair_counts self) \<noteq> n then (Inl RuntimeError, self) else (Inr results, self))"
| "affinities_loop min_support min_confidence n (entry # rest) results self =
     (if length (pair_counts self) \<noteq> n then (Inl RuntimeError, self)
      else (case affinity_step min_support min_confidence self entry of
              (Inl e, self') \<Rightarrow> (Inl e, self')
            | (Inr new, self') \<Rightarrow>
                affinities_loop min_support min_confidence n rest (results @ new) self'))"

definition get_updated_affinities ::
  "'a::linorder AffinityCache \<Rightarrow> rat \<Rightarrow> rat \<Rightarrow> (error + 'a DataFrame) \<times> 'a AffinityCache" where
  "get_updated_affinities self min_support min_confidence =
     (case affinities_loop min_support min_confidence (length (pair_counts self))
             (pair_counts self) [] self of
        (Inl e, self') \<Rightarrow> (Inl e, self')
      | (Inr results, self') \<Rightarrow> (Inr (DataFrame_of results), self'))"

record 'a statistics =
  stat_total_transactions :: nat
  unique_products :: nat
  unique_pairs :: nat
  most_frequent_item :: "'a option"
  most_frequent_pair :: "('a \<times> 'a) option"

definition get_statistics :: "'a AffinityCache \<Rightarrow> 'a statistics" where
  "get_statistics self =
     \<lparr>stat_total_transactions = total_transactions self,
      unique_products = card (all_products self),
      unique_pairs = length (pair_counts self),
      most_frequent_item =
        (case item_counts self of [] \<Rightarrow> None | x # xs \<Rightarrow> Some (fst (max_by_count x xs))),
      most_frequent_pair =
        (case pair_counts self of [] \<Rightarrow> None | x # xs \<Rightarrow> Some (fst (max_by_count x xs)))\<rparr>"

text \<open>
  \<open>groupby('transaction_id')\<close> visits the distinct transaction identifiers in sorted order;
  the basket of a group is the set of its distinct product identifiers.
\<close>

definition group_baskets :: "('t::linorder \<times> 'a) list \<Rightarrow> 'a list list" where
  "group_baskets line_items =
     map (\<lambda>txn_id. remdups (map snd (filter (\<lambda>item. fst item = txn_id) line_items)))
         (sort (remdups (map fst line_items)))"


section \<open>MarketBasketAnalyzer (market\_basket\_analyzer.py)\<close>

text \<open>
  The analyzer's own \<open>item_counts\<close> and \<open>pair_counts\<close> are created empty and never read
  or written again; they are left out of the record.
\<close>

record 'a MarketBasketAnalyzer =
  min_support :: rat
  min_confidence :: rat
  mba_total_transactions :: nat
  transaction_baskets :: "'a list list"

definition MarketBasketAnalyzer_init :: "rat \<Rightarrow> rat \<Rightarrow> 'a MarketBasketAnalyzer" where
  "MarketBasketAnalyzer_init ms mc =
     \<lparr>min_support = ms, min_confidence = mc, mba_total_transactions = 0,
      transaction_baskets = []\<rparr>"

definition build_transaction_baskets ::
  "'a MarketBasketAnalyzer \<Rightarrow> ('t::linorder \<times> 'a) list \<Rightarrow> 'a list list \<times> 'a MarketBasketAnalyzer" where
  "build_transaction_baskets self line_items =
     (let baskets = group_baskets line_items
      in (baskets, self\<lparr>transaction_baskets := baskets,
                         mba_total_transactions := length baskets\<rparr>))"

definition calculate_support :: "'a MarketBasketAnalyzer \<Rightarrow> 'a list \<Rightarrow> rat" where
  "calculate_support self itemset =
     (if mba_total_transactions self = 0 then 0
      else (let count = length (filter (\<lambda>basket. set itemset \<subseteq> set basket)
                                       (transaction_baskets self))
            in of_nat count / of_nat (mba_total_transactions self)))"

definition calculate_confidence :: "'a MarketBasketAnalyzer \<Rightarrow> 'a \<Rightarrow> 'a \<Rightarrow> rat" where
  "calculate_confidence self antecedent consequent =
     (let support_a = calculate_support self [antecedent]
      in if support_a = 0 then 0
         else (let support_ab = calculate_support self [antecedent, consequent]
               in support_ab / support_a))"

definition calculate_lift :: "'a MarketBasketAnalyzer \<Rightarrow> 'a \<Rightarrow> 'a \<Rightarrow> rat" where
  "calculate_lift self antecedent consequent =
     (let confidence = calculate_confidence self antecedent consequent;
          support_b = calculate_support self [consequent]
      in if support_b = 0 then 0 else confidence / support_b)"

definition generate_product_pairs :: "'a::linorder MarketBasketAnalyzer \<Rightarrow> ('a \<times> 'a) list" where
  "generate_product_pairs self =
     (let all_products = fold (\<lambda>basket acc. acc \<union> set basket) (transaction_baskets self) {}
      in combinations2 (sorted_list_of_set all_products))"

text \<open>The body of the loop of \<open>analyze\<close> for one candidate pair: the rows it appends.\<close>

definition analyze_pair :: "'a MarketBasketAnalyzer \<Rightarrow> 'a \<times> 'a \<Rightarrow> 'a row list" where
  "analyze_pair self pair =
     (let (product_a, product_b) = pair;
          support_ab = calculate_support self [product_a, product_b]
      in if support_ab < min_support self then []
         else
           (let confidence_ab = calculate_confidence self product_a product_b;
                confidence_ba = calculate_confidence self product_b product_a
            in if confidence_ab < min_confidence self \<and> confidence_ba < min_confidence self
               then []
               else
                 (let lift_ab = calculate_lift self product_a product_b;
                      lift_ba = calculate_lift self product_b product_a
                  in [result_row product_a product_b support_ab confidence_ab lift_ab,
                      result_row product_b product_a support_ab confidence_ba lift_ba])))"

text \<open>
  \<open>results_df[c1] = results_df[c2].map(names)\<close>: reading a column the frame does not have
  raises \<open>KeyError\<close>; an identifier without a name gets the missing value.
\<close>

definition add_names ::
  "('a \<rightharpoonup> string) \<Rightarrow> 'a DataFrame \<Rightarrow> error + 'a DataFrame" where
  "add_names product_names df =
     (if ''product_a'' \<notin> set (columns df) then Inl (KeyError ''product_a'')
      else
        (let df1 = \<lparr>columns = columns df @ [''product_a_name''],
                    rows = map (\<lambda>r. r\<lparr>product_a_name := product_names (product_a r)\<rparr>) (rows df)\<rparr>
         in if ''product_b'' \<notin> set (columns df1) then Inl (KeyError ''product_b'')
            else Inr \<lparr>columns = columns df1 @ [''product_b_name''],
                      rows = map (\<lambda>r. r\<lparr>product_b_name := product_names (product_b r)\<rparr>)
                                 (rows df1)\<rparr>))"

text \<open>
  \<open>analyze\<close>; \<open>products_df\<close> is the optional table of \<open>(product_id, product_name)\<close> rows,
  and \<open>dict(zip(...))\<close> keeps the last name of an identifier listed twice.
\<close>

definition analyze ::
  "'a::linorder MarketBasketAnalyzer \<Rightarrow> ('t::linorder \<times> 'a) list \<Rightarrow> ('a \<times> string) list option
     \<Rightarrow> (error + 'a DataFrame) \<times> 'a MarketBasketAnalyzer" where
  "analyze self line_items products_df =
     (let (baskets, self1) = build_transaction_baskets self line_items;
          pairs = generate_product_pairs self1;
          results = fold (\<lambda>pair results. results @ analyze_pair self1 pair) pairs [];
          results_df = DataFrame_of results
      in case products_df of
           None \<Rightarrow> (Inr results_df, self1)
         | Some products \<Rightarrow> (add_names (map_of (rev products)) results_df, self1))"

section \<open>Reachable states of the cache\<close>

text \<open>
  The states of a cache that starts empty and is then driven through its public
  operations, ingestions and queries alike, with well-formed baskets.
\<close>

inductive reachable :: "'a::linorder AffinityCache \<Rightarrow> bool" where
  init: "reachable AffinityCache_init"
| ingest: "reachable s \<Longrightarrow> distinct basket \<Longrightarrow> reachable (update_with_new_transaction s basket)"
| ingest_batch: "reachable s \<Longrightarrow> \<forall>basket \<in> set baskets. distinct basket
     \<Longrightarrow> reachable (update_with_batch s baskets)"
| query_support: "reachable s \<Longrightarrow> reachable (snd (get_support s itemset))"
| query_confidence: "reachable s \<Longrightarrow> reachable (snd (get_confidence s a b))"
| query_lift: "reachable s \<Longrightarrow> reachable (snd (get_lift s a b))"
| query_affinities: "reachable s \<Longrightarrow> reachable (snd (get_updated_affinities s ms mc))"

text \<open>
  Two caches hold the same statistics when they agree on the transaction total, on the
  known products and on the count of every item and pair; they may differ in keys whose
  count is 0 and in the order of the keys.
\<close>

definition same_counts :: "'a AffinityCache \<Rightarrow> 'a AffinityCache \<Rightarrow> bool" where
  "same_counts s t \<longleftrightarrow>
     total_transactions s = total_transactions t \<and> all_products s = all_products t \<and>
     count_of (item_counts s) = count_of (item_counts t) \<and>
     count_of (pair_counts s) = count_of (pair_counts t)"

text \<open>
  The shape every writer of the cache maintains: a dictionary has each key once, a pair
  key is stored with its smaller member first, and pairs are only recorded together with
  a transaction.
\<close>

definition well_formed :: "'a::linorder AffinityCache \<Rightarrow> bool" where
  "well_formed s \<longleftrightarrow>
     distinct (map fst (item_counts s)) \<and> distinct (map fst (pair_counts s)) \<and>
     (\<forall>p \<in> fst ` set (pair_counts s). fst p \<le> snd p) \<and>
     (total_transactions s = 0 \<longrightarrow> pair_counts s = [])"

text \<open>
  The two count invariants of the data model: an item is counted at most once per
  transaction, and a pair at most as often as either of its members. The count of a key
  is the value the dictionary holds for it, 0 for a key it does not have.
\<close>

definition counts_bounded :: "'a AffinityCache \<Rightarrow> bool" where
  "counts_bounded s \<longleftrightarrow>
     (\<forall>x. count_of (item_counts s) x \<le> total_transactions s) \<and>
     (\<forall>a b. count_of (pair_counts s) (a, b)
              \<le> min (count_of (item_counts s) a) (count_of (item_counts s) b))"

text \<open>
  The rows one entry of \<open>pair_counts\<close> contributes to the rule table, written with the
  values the queries return in a given state.
\<close>

definition pair_rows ::
  "rat \<Rightarrow> rat \<Rightarrow> 'a::linorder AffinityCache \<Rightarrow> ('a \<times> 'a) \<times> nat \<Rightarrow> 'a row list" where
  "pair_rows ms mc s entry =
     (let a = fst (fst entry); b = snd (fst entry);
          supp = of_nat (snd entry) / of_nat (total_transactions s)
      in if supp < ms \<or> (fst (get_confidence s a b) < mc \<and> fst (get_confidence s b a) < mc)
         then []
         else [result_row a b supp (fst (get_confidence s a b)) (fst (get_lift s a b)),
               result_row b a supp (fst (get_confidence s b a)) (fst (get_lift s b a))])"

section \<open>Dictionaries with a default\<close>

lemma map_of_setitem: "map_of (setitem d k v) = (map_of d)(k \<mapsto> v)"
  by (induction d) (auto simp: fun_eq_iff)

lemma keys_setitem: "fst ` set (setitem d k v) = insert k (fst ` set d)"
  by (simp only: dom_map_of_conv_image_fst [symmetric] map_of_setitem dom_fun_upd) simp

lemma setitem_absent: "k \<notin> fst ` set d \<Longrightarrow> setitem d k v = d @ [(k, v)]"
  by (induction d) auto

lemma distinct_setitem: "distinct (map fst d) \<Longrightarrow> distinct (map fst (setitem d k v))"
  by (induction d) (auto simp: keys_setitem)

lemma length_setitem: "length (setitem d k v) = (if k \<in> fst ` set d then length d else Suc (length d))"
  by (induction d) force+

lemma fst_getitem: "fst (getitem d k) = count_of d k"
  by (simp add: getitem_def count_of_def split: option.splits)

lemma count_of_getitem: "count_of (snd (getitem d k)) k' = count_of d k'"
  by (simp add: getitem_def count_of_def map_of_setitem split: option.splits)

lemma keys_getitem: "fst ` set (snd (getitem d k)) = insert k (fst ` set d)"
  by (auto simp: getitem_def keys_setitem map_of_eq_None_iff split: option.splits dest!: map_of_SomeD intro: rev_image_eqI)

lemma getitem_present: "k \<in> fst ` set d \<Longrightarrow> snd (getitem d k) = d"
  by (auto simp: getitem_def map_of_eq_None_iff split: option.splits)

lemma distinct_getitem: "distinct (map fst d) \<Longrightarrow> distinct (map fst (snd (getitem d k)))"
  by (simp add: getitem_def distinct_setitem split: option.splits)

lemma count_of_incr: "count_of (incr d k) k' = count_of d k' + (if k' = k then 1 else 0)"
  by (simp add: incr_def getitem_def count_of_def map_of_setitem split: option.splits)

lemma keys_incr: "fst ` set (incr d k) = insert k (fst ` set d)"
  by (auto simp: incr_def getitem_def keys_setitem split: option.splits)

lemma distinct_incr: "distinct (map fst d) \<Longrightarrow> distinct (map fst (incr d k))"
  by (simp add: incr_def getitem_def distinct_setitem split: option.splits)

lemma count_of_fold_incr:
  "count_of (fold (\<lambda>k d. incr d k) ks d) k' = count_of d k' + count_list ks k'"
  by (induction ks arbitrary: d) (auto simp: count_of_incr)

lemma keys_fold_incr: "fst ` set (fold (\<lambda>k d. incr d k) ks d) = fst ` set d \<union> set ks"
  by (induction ks arbitrary: d) (auto simp: keys_incr)

lemma distinct_fold_incr:
  "distinct (map fst d) \<Longrightarrow> distinct (map fst (fold (\<lambda>k d. incr d k) ks d))"
  by (induction ks arbitrary: d) (auto simp: distinct_incr)

lemma map_of_eq_count_of:
  "map_of d k = (if k \<in> fst ` set d then Some (count_of d k) else None)"
  by (auto simp: count_of_def map_of_eq_None_iff split: option.splits)

section \<open>Ingestion in closed form\<close>

text \<open>
  The two nested index iterations of \<open>update_with_new_transaction\<close> visit the pairs of
  \<open>combinations2\<close> of the sorted basket, so an ingestion is four independent field updates.
\<close>

lemma fold_item_counts:
  "fold (\<lambda>item s. s\<lparr>item_counts := incr (item_counts s) item,
                      all_products := insert item (all_products s)\<rparr>) b (s :: 'a AffinityCache)
   = s\<lparr>item_counts := fold (\<lambda>k d. incr d k) b (item_counts s),
        all_products := all_products s \<union> set b\<rparr>"
  by (induction b arbitrary: s) auto

lemma fold_pair_counts:
  "fold (\<lambda>j s. s\<lparr>pair_counts := incr (pair_counts s) (f j)\<rparr>) js (s :: 'a AffinityCache)
   = s\<lparr>pair_counts := fold (\<lambda>k d. incr d k) (map f js) (pair_counts s)\<rparr>"
  by (induction js arbitrary: s) auto

lemma fold_fold_pair_counts:
  "fold (\<lambda>i s. fold (\<lambda>j s. s\<lparr>pair_counts := incr (pair_counts s) (f i j)\<rparr>) (js i) s) is
        (s :: 'a AffinityCache)
   = s\<lparr>pair_counts := fold (\<lambda>k d. incr d k) (concat (map (\<lambda>i. map (f i) (js i)) is))
                              (pair_counts s)\<rparr>"
  by (induction "is" arbitrary: s) (auto simp: fold_pair_counts)

lemma index_pairs_Cons:
  "concat (map (\<lambda>i. map (\<lambda>j. ((x # xs) ! i, (x # xs) ! j)) [Suc i ..< Suc (length xs)])
               [0 ..< Suc (length xs)])
   = map (Pair x) xs
     @ concat (map (\<lambda>i. map (\<lambda>j. (xs ! i, xs ! j)) [Suc i ..< length xs]) [0 ..< length xs])"
proof -
  have up: "[0 ..< Suc (length xs)] = 0 # map Suc [0 ..< length xs]"
    by (simp add: upt_conv_Cons map_Suc_upt del: upt_Suc)
  have row0: "map (\<lambda>j. (x, (x # xs) ! j)) [Suc 0 ..< Suc (length xs)] = map (Pair x) xs"
  proof -
    have "[Suc 0 ..< Suc (length xs)] = map Suc [0 ..< length xs]"
      by (simp add: map_Suc_upt del: upt_Suc)
    then have "map (\<lambda>j. (x, (x # xs) ! j)) [Suc 0 ..< Suc (length xs)]
               = map (\<lambda>j. (x, xs ! j)) [0 ..< length xs]"
      by (simp add: comp_def del: upt_Suc)
    also have "\<dots> = map (Pair x) (map (nth xs) [0 ..< length xs])"
      by (simp add: comp_def)
    finally show ?thesis by (simp add: map_nth)
  qed
  have rows: "map (\<lambda>j. (xs ! i, (x # xs) ! j)) [Suc (Suc i) ..< Suc (length xs)]
              = map (\<lambda>j. (xs ! i, xs ! j)) [Suc i ..< length xs]" for i
  proof -
    have "[Suc (Suc i) ..< Suc (length xs)] = map Suc [Suc i ..< length xs]"
      by (simp add: map_Suc_upt del: upt_Suc)
    then show ?thesis by (simp add: comp_def del: upt_Suc)
  qed
  show ?thesis
    unfolding up by (simp add: comp_def row0 rows del: upt_Suc)
qed

lemma index_pairs_combinations2:
  "concat (map (\<lambda>i. map (\<lambda>j. (xs ! i, xs ! j)) [Suc i ..< length xs]) [0 ..< length xs])
   = combinations2 xs"
proof (induction xs)
  case Nil
  then show ?case by simp
next
  case (Cons x xs)
  show ?case
    using index_pairs_Cons [of x xs] Cons.IH by simp
qed

lemma update_with_new_transaction_eq:
  "update_with_new_transaction s b =
     s\<lparr>total_transactions := total_transactions s + 1,
       item_counts := fold (\<lambda>k d. incr d k) b (item_counts s),
       pair_counts := fold (\<lambda>k d. incr d k) (combinations2 (sort b)) (pair_counts s),
       all_products := all_products s \<union> set b\<rparr>"
  by (simp add: update_with_new_transaction_def Let_def fold_item_counts fold_fold_pair_counts
      index_pairs_combinations2 [of "sort b", simplified] del: upt_Suc)

lemma set_combinations2_subset:
  "(a, b) \<in> set (combinations2 xs) \<Longrightarrow> a \<in> set xs \<and> b \<in> set xs"
  by (induction xs) auto

lemma set_combinations2:
  "sorted xs \<Longrightarrow> distinct xs \<Longrightarrow>
   set (combinations2 xs) = {(a, b). a \<in> set xs \<and> b \<in> set xs \<and> a < b}"
proof (induction xs)
  case Nil
  then show ?case by simp
next
  case (Cons x xs)
  then have IH: "set (combinations2 xs) = {(a, b). a \<in> set xs \<and> b \<in> set xs \<and> a < b}"
    by simp
  from Cons.prems have less: "\<forall>y \<in> set xs. x < y"
    by (auto simp: less_le)
  show ?case
    using less by (auto simp: IH)
qed

lemma distinct_combinations2: "distinct xs \<Longrightarrow> distinct (combinations2 xs)"
proof (induction xs)
  case Nil
  then show ?case by simp
next
  case (Cons x xs)
  then have "distinct (map (Pair x) xs)"
    by (simp add: distinct_map inj_on_def)
  moreover have "set (map (Pair x) xs) \<inter> set (combinations2 xs) = {}"
    using Cons.prems by (auto dest: set_combinations2_subset)
  ultimately show ?case
    using Cons by simp
qed

lemma count_list_distinct: "distinct xs \<Longrightarrow> count_list xs x = (if x \<in> set xs then 1 else 0)"
  by (induction xs) auto

lemma count_list_combinations2_sort:
  "distinct b \<Longrightarrow>
   count_list (combinations2 (sort b)) (x, y) = (if x \<in> set b \<and> y \<in> set b \<and> x < y then 1 else 0)"
  by (simp add: count_list_distinct distinct_combinations2 set_combinations2)

lemma total_update_with_new_transaction:
  "total_transactions (update_with_new_transaction s b) = total_transactions s + 1"
  by (simp add: update_with_new_transaction_eq)

lemma all_products_update_with_new_transaction:
  "all_products (update_with_new_transaction s b) = all_products s \<union> set b"
  by (simp add: update_with_new_transaction_eq)

lemma item_count_update_with_new_transaction:
  "count_of (item_counts (update_with_new_transaction s b)) x
   = count_of (item_counts s) x + count_list b x"
  by (simp add: update_with_new_transaction_eq count_of_fold_incr)

lemma item_keys_update_with_new_transaction:
  "fst ` set (item_counts (update_with_new_transaction s b)) = fst ` set (item_counts s) \<union> set b"
  by (simp add: update_with_new_transaction_eq keys_fold_incr)

lemma pair_count_update_with_new_transaction:
  "distinct b \<Longrightarrow>
   count_of (pair_counts (update_with_new_transaction s b)) (x, y)
   = count_of (pair_counts s) (x, y) + (if x \<in> set b \<and> y \<in> set b \<and> x < y then 1 else 0)"
  by (simp add: update_with_new_transaction_eq count_of_fold_incr count_list_combinations2_sort)

lemma pair_keys_update_with_new_transaction:
  "distinct b \<Longrightarrow>
   fst ` set (pair_counts (update_with_new_transaction s b))
   = fst ` set (pair_counts s) \<union> {(x, y). x \<in> set b \<and> y \<in> set b \<and> x < y}"
  by (simp add: update_with_new_transaction_eq keys_fold_incr set_combinations2)

lemma distinct_keys_update_with_new_transaction:
  "distinct (map fst (item_counts s)) \<Longrightarrow> distinct (map fst (pair_counts s)) \<Longrightarrow>
   distinct (map fst (item_counts (update_with_new_transaction s b))) \<and>
   distinct (map fst (pair_counts (update_with_new_transaction s b)))"
  by (simp add: update_with_new_transaction_eq distinct_fold_incr)

lemma update_with_batch_Nil: "update_with_batch s [] = s"
  by (simp add: update_with_batch_def)

lemma update_with_batch_Cons:
  "update_with_batch s (b # bs) = update_with_batch (update_with_new_transaction s b) bs"
  by (simp add: update_with_batch_def)

lemma update_with_batch_append:
  "update_with_batch s (bs @ cs) = update_with_batch (update_with_batch s bs) cs"
  by (simp add: update_with_batch_def)

lemma total_update_with_batch:
  "total_transactions (update_with_batch s bs) = total_transactions s + length bs"
  by (induction bs arbitrary: s)
     (simp_all add: update_with_batch_Nil update_with_batch_Cons total_update_with_new_transaction)

lemma all_products_update_with_batch:
  "all_products (update_with_batch s bs) = all_products s \<union> \<Union> (set ` set bs)"
  by (induction bs arbitrary: s)
     (auto simp: update_with_batch_Nil update_with_batch_Cons all_products_update_with_new_transaction)

lemma item_count_update_with_batch:
  "\<forall>b \<in> set bs. distinct b \<Longrightarrow>
   count_of (item_counts (update_with_batch s bs)) x
   = count_of (item_counts s) x + length (filter (\<lambda>b. x \<in> set b) bs)"
  by (induction bs arbitrary: s)
     (simp_all add: update_with_batch_Nil update_with_batch_Cons
        item_count_update_with_new_transaction count_list_distinct)

lemma item_keys_update_with_batch:
  "fst ` set (item_counts (update_with_batch s bs)) = fst ` set (item_counts s) \<union> \<Union> (set ` set bs)"
  by (induction bs arbitrary: s)
     (auto simp: update_with_batch_Nil update_with_batch_Cons item_keys_update_with_new_transaction)

lemma pair_count_update_with_batch:
  "\<forall>b \<in> set bs. distinct b \<Longrightarrow>
   count_of (pair_counts (update_with_batch s bs)) (x, y)
   = count_of (pair_counts s) (x, y)
     + (if x < y then length (filter (\<lambda>b. x \<in> set b \<and> y \<in> set b) bs) else 0)"
  by (induction bs arbitrary: s)
     (simp_all add: update_with_batch_Nil update_with_batch_Cons
        pair_count_update_with_new_transaction)

lemma pair_keys_update_with_batch:
  "\<forall>b \<in> set bs. distinct b \<Longrightarrow>
   fst ` set (pair_counts (update_with_batch s bs))
   = fst ` set (pair_counts s) \<union> {(x, y). x < y \<and> (\<exists>b \<in> set bs. x \<in> set b \<and> y \<in> set b)}"
proof (induction bs arbitrary: s)
  case Nil
  then show ?case by (simp add: update_with_batch_Nil)
next
  case (Cons b bs)
  then show ?case
    by (simp add: update_with_batch_Cons pair_keys_update_with_new_transaction) blast
qed

lemma distinct_keys_update_with_batch:
  "distinct (map fst (item_counts s)) \<Longrightarrow> distinct (map fst (pair_counts s)) \<Longrightarrow>
   distinct (map fst (item_counts (update_with_batch s bs))) \<and>
   distinct (map fst (pair_counts (update_with_batch s bs)))"
  by (induction bs arbitrary: s)
     (simp_all add: update_with_batch_Nil update_with_batch_Cons
        distinct_keys_update_with_new_transaction)

section \<open>Order of ingestion\<close>

lemma fold_update_with_batch:
  "fold (\<lambda>batch s. update_with_batch s batch) batches s = update_with_batch s (concat batches)"
  by (induction batches arbitrary: s) (simp_all add: update_with_batch_Nil update_with_batch_append)

lemma length_filter_set_mset:
  "length (filter (\<lambda>b. P (set b)) bs) = size (filter_mset P (mset (map set bs)))"
  by (induction bs) simp_all

lemma Union_set_mset: "\<Union> (set ` set bs) = \<Union> (set_mset (mset (map set bs)))"
  by simp

lemma Bex_set_mset: "(\<exists>b \<in> set bs. P (set b)) \<longleftrightarrow> (\<exists>B \<in># mset (map set bs). P B)"
  by auto

lemma batch_state_determined:
  assumes d1: "\<forall>b \<in> set bs. distinct b" and d2: "\<forall>b \<in> set cs. distinct b"
    and eq: "mset (map set bs) = mset (map set cs)"
  shows "total_transactions (update_with_batch s bs) = total_transactions (update_with_batch s cs)"
    and "map_of (item_counts (update_with_batch s bs)) = map_of (item_counts (update_with_batch s cs))"
    and "map_of (pair_counts (update_with_batch s bs)) = map_of (pair_counts (update_with_batch s cs))"
    and "all_products (update_with_batch s bs) = all_products (update_with_batch s cs)"
proof -
  have "length (map set bs) = length (map set cs)"
    using eq by (metis size_mset)
  then show "total_transactions (update_with_batch s bs) = total_transactions (update_with_batch s cs)"
    by (simp add: total_update_with_batch)
  have U: "\<Union> (set ` set bs) = \<Union> (set ` set cs)"
    by (simp only: Union_set_mset eq)
  show "all_products (update_with_batch s bs) = all_products (update_with_batch s cs)"
    by (simp only: all_products_update_with_batch U)
  have ik: "fst ` set (item_counts (update_with_batch s bs)) = fst ` set (item_counts (update_with_batch s cs))"
    by (simp only: item_keys_update_with_batch U)
  have len: "length (filter (\<lambda>b. P (set b)) bs) = length (filter (\<lambda>b. P (set b)) cs)" for P
    by (simp only: length_filter_set_mset [of P] eq)
  have ic: "count_of (item_counts (update_with_batch s bs)) x = count_of (item_counts (update_with_batch s cs)) x" for x
    using len [of "\<lambda>B. x \<in> B"]
    by (simp add: item_count_update_with_batch d1 d2)
  show "map_of (item_counts (update_with_batch s bs)) = map_of (item_counts (update_with_batch s cs))"
    by (rule ext) (simp only: map_of_eq_count_of ik ic)
  have pk: "fst ` set (pair_counts (update_with_batch s bs)) = fst ` set (pair_counts (update_with_batch s cs))"
  proof -
    have "(\<exists>b \<in> set bs. x \<in> set b \<and> y \<in> set b) \<longleftrightarrow> (\<exists>b \<in> set cs. x \<in> set b \<and> y \<in> set b)" for x y
      using Bex_set_mset [of bs "\<lambda>B. x \<in> B \<and> y \<in> B"] Bex_set_mset [of cs "\<lambda>B. x \<in> B \<and> y \<in> B"]
      by (simp only: eq)
    then show ?thesis
      by (simp add: pair_keys_update_with_batch d1 d2)
  qed
  have pc: "count_of (pair_counts (update_with_batch s bs)) p = count_of (pair_counts (update_with_batch s cs)) p" for p
  proof (cases p)
    case (Pair x y)
    show ?thesis
      using len [of "\<lambda>B. x \<in> B \<and> y \<in> B"]
      by (simp add: Pair pair_count_update_with_batch d1 d2)
  qed
  show "map_of (pair_counts (update_with_batch s bs)) = map_of (pair_counts (update_with_batch s cs))"
    by (rule ext) (simp only: map_of_eq_count_of pk pc)
qed

text \<open>
  C3. Take the baskets of a finite multiset of sets, once split into a sequence of batches
  fed to \<open>update_with_batch\<close> and once in any other order (and with any iteration order
  inside each basket) fed one by one to \<open>update_with_new_transaction\<close>, both from the empty
  cache. The two final caches have the same \<open>total_transactions\<close>, the same \<open>item_counts\<close>
  and \<open>pair_counts\<close> as dictionaries (same keys, same values), and the same \<open>all_products\<close>.
\<close>

theorem ingestion_order_independent:
  assumes "\<forall>basket \<in> set (concat batches). distinct basket"
    and "\<forall>basket \<in> set singles. distinct basket"
    and "mset (map set (concat batches)) = mset (map set singles)"
  shows "total_transactions (fold (\<lambda>batch s. update_with_batch s batch) batches AffinityCache_init)
           = total_transactions (fold (\<lambda>basket s. update_with_new_transaction s basket) singles AffinityCache_init)
       \<and> map_of (item_counts (fold (\<lambda>batch s. update_with_batch s batch) batches AffinityCache_init))
           = map_of (item_counts (fold (\<lambda>basket s. update_with_new_transaction s basket) singles AffinityCache_init))
       \<and> map_of (pair_counts (fold (\<lambda>batch s. update_with_batch s batch) batches AffinityCache_init))
           = map_of (pair_counts (fold (\<lambda>basket s. update_with_new_transaction s basket) singles AffinityCache_init))
       \<and> all_products (fold (\<lambda>batch s. update_with_batch s batch) batches AffinityCache_init)
           = all_products (fold (\<lambda>basket s. update_with_new_transaction s basket) singles AffinityCache_init)"
proof -
  have one: "fold (\<lambda>basket s. update_with_new_transaction s basket) singles AffinityCache_init
             = update_with_batch AffinityCache_init singles"
    by (simp add: update_with_batch_def)
  show ?thesis
    unfolding one fold_update_with_batch
    using batch_state_determined [OF assms] by simp
qed

theorem ingestion_order_independent_witness:
  "distinct [''A'', ''B''] \<and> distinct [''C'', ''B''] \<and> distinct [''B'', ''C'']
   \<and> distinct [''B'', ''A'']
   \<and> mset (map set (concat [[[''A'', ''B'']], [[''C'', ''B'']]]))
       = mset (map set [[''B'', ''C''], [''B'', ''A'']])
   \<and> total_transactions (fold (\<lambda>batch s. update_with_batch s batch)
         [[[''A'', ''B'']], [[''C'', ''B'']]] AffinityCache_init) = 2
   \<and> map_of (pair_counts (fold (\<lambda>batch s. update_with_batch s batch)
         [[[''A'', ''B'']], [[''C'', ''B'']]] AffinityCache_init))
       = map_of (pair_counts (fold (\<lambda>basket s. update_with_new_transaction s basket)
           [[''B'', ''C''], [''B'', ''A'']] AffinityCache_init))
   \<and> pair_counts (fold (\<lambda>batch s. update_with_batch s batch)
         [[[''A'', ''B'']], [[''C'', ''B'']]] AffinityCache_init)
       \<noteq> pair_counts (fold (\<lambda>basket s. update_with_new_transaction s basket)
           [[''B'', ''C''], [''B'', ''A'']] AffinityCache_init)"
proof -
  have h1: "\<forall>basket \<in> set (concat [[[''A'', ''B'']], [[''C'', ''B'']]]). distinct basket"
    by simp
  have h2: "\<forall>basket \<in> set [[''B'', ''C''], [''B'', ''A'']]. distinct basket"
    by simp
  have s1: "set [''C'', ''B''] = set [''B'', ''C'']" by auto
  have s2: "set [''A'', ''B''] = set [''B'', ''A'']" by auto
  have h3: "mset (map set (concat [[[''A'', ''B'']], [[''C'', ''B'']]]))
       = mset (map set [[''B'', ''C''], [''B'', ''A'']])"
    using s1 s2 by (simp add: add_mset_commute)
  have t: "total_transactions (fold (\<lambda>batch s. update_with_batch s batch)
         [[[''A'', ''B'']], [[''C'', ''B'']]] AffinityCache_init) = 2"
    by code_simp
  have ne: "pair_counts (fold (\<lambda>batch s. update_with_batch s batch)
         [[[''A'', ''B'']], [[''C'', ''B'']]] AffinityCache_init)
       \<noteq> pair_counts (fold (\<lambda>basket s. update_with_new_transaction s basket)
           [[''B'', ''C''], [''B'', ''A'']] AffinityCache_init)"
    by code_simp
  show ?thesis
    using ingestion_order_independent [OF h1 h2 h3] h3 t ne by simp
qed

section \<open>What the queries return and what they leave behind\<close>

lemma same_counts_refl: "same_counts s s"
  by (simp add: same_counts_def)

lemma same_counts_sym: "same_counts s t \<Longrightarrow> same_counts t s"
  by (simp add: same_counts_def)

lemma same_counts_trans: "same_counts s t \<Longrightarrow> same_counts t u \<Longrightarrow> same_counts s u"
  by (simp add: same_counts_def)

lemma sort_pair: "sort [a, b] = (if a \<le> b then [a, b] else [b, a])"
  by auto

lemma get_support_value:
  "fst (get_support s itemset) =
     (if total_transactions s = 0 then 0
      else if length itemset = 1 then
        of_nat (count_of (item_counts s) (itemset ! 0)) / of_nat (total_transactions s)
      else if length itemset = 2 then
        of_nat (count_of (pair_counts s) (sort itemset ! 0, sort itemset ! 1))
          / of_nat (total_transactions s)
      else 0)"
  by (simp add: get_support_def Let_def split_def fst_getitem)

lemma get_support_state:
  "snd (get_support s itemset) =
     (if total_transactions s = 0 then s
      else if length itemset = 1 then
        s\<lparr>item_counts := snd (getitem (item_counts s) (itemset ! 0))\<rparr>
      else if length itemset = 2 then
        s\<lparr>pair_counts := snd (getitem (pair_counts s) (sort itemset ! 0, sort itemset ! 1))\<rparr>
      else s)"
  by (simp add: get_support_def Let_def split_def)

lemma count_of_getitem_fun: "count_of (snd (getitem d k)) = count_of d"
  by (rule ext) (rule count_of_getitem)

lemma get_support_same: "same_counts s (snd (get_support s itemset))"
  by (simp add: get_support_state same_counts_def count_of_getitem_fun)

lemma get_support_cong:
  "same_counts s t \<Longrightarrow> fst (get_support s itemset) = fst (get_support t itemset)"
  by (simp add: get_support_value same_counts_def)

lemma get_confidence_value:
  "fst (get_confidence s a b) =
     (if fst (get_support s [a]) = 0 then 0
      else fst (get_support s [a, b]) / fst (get_support s [a]))"
proof -
  have "fst (get_support (snd (get_support s [a])) [a, b]) = fst (get_support s [a, b])"
    by (rule get_support_cong [symmetric]) (rule get_support_same)
  then show ?thesis
    by (simp add: get_confidence_def Let_def split_def)
qed

lemma get_confidence_same: "same_counts s (snd (get_confidence s a b))"
  by (auto simp: get_confidence_def Let_def split_def
      intro: get_support_same same_counts_trans [OF get_support_same get_support_same])

lemma get_confidence_cong:
  "same_counts s t \<Longrightarrow> fst (get_confidence s a b) = fst (get_confidence t a b)"
  by (simp add: get_confidence_value get_support_cong [of s t])

lemma get_lift_value:
  "fst (get_lift s a b) =
     (if fst (get_support s [b]) = 0 then 0 else fst (get_confidence s a b) / fst (get_support s [b]))"
proof -
  have "fst (get_support (snd (get_confidence s a b)) [b]) = fst (get_support s [b])"
    by (rule get_support_cong [symmetric]) (rule get_confidence_same)
  then show ?thesis
    by (simp add: get_lift_def Let_def split_def)
qed

lemma get_lift_same: "same_counts s (snd (get_lift s a b))"
  by (auto simp: get_lift_def Let_def split_def
      intro: same_counts_trans [OF get_confidence_same get_support_same])

lemma get_lift_cong:
  "same_counts s t \<Longrightarrow> fst (get_lift s a b) = fst (get_lift t a b)"
  by (simp add: get_lift_value get_support_cong [of s t] get_confidence_cong [of s t])

lemma sort_pair_nth: "(sort [a, b] ! 0, sort [a, b] ! 1) = (min a b, max a b)"
  by (auto simp: min_def max_def)

lemma sort_length2_le: "length xs = 2 \<Longrightarrow> sort xs ! 0 \<le> sort xs ! Suc 0"
proof -
  assume "length xs = 2"
  then obtain a b where "xs = [a, b]"
    by (cases xs; cases "tl xs") auto
  then show ?thesis by auto
qed

lemma sort_pair_nth_Suc: "(sort [a, b] ! 0, sort [a, b] ! Suc 0) = (min a b, max a b)"
  by (auto simp: min_def max_def)

lemma well_formed_get_support:
  assumes "well_formed s"
  shows "well_formed (snd (get_support s itemset))"
proof -
  have keys: "\<forall>p \<in> fst ` set (snd (getitem (pair_counts s) (sort itemset ! 0, sort itemset ! 1))).
                fst p \<le> snd p" if "length itemset = 2"
    unfolding keys_getitem using assms that by (simp add: well_formed_def sort_length2_le)
  show ?thesis
    using assms keys
    by (simp add: well_formed_def get_support_state distinct_getitem del: sort_key_simps)
qed

lemma well_formed_get_confidence: "well_formed s \<Longrightarrow> well_formed (snd (get_confidence s a b))"
  by (simp add: get_confidence_def Let_def split_def well_formed_get_support)

lemma well_formed_get_lift: "well_formed s \<Longrightarrow> well_formed (snd (get_lift s a b))"
  by (simp add: get_lift_def Let_def split_def well_formed_get_support well_formed_get_confidence)

lemma pair_counts_get_support_single: "pair_counts (snd (get_support s [x])) = pair_counts s"
  by (simp add: get_support_state)

lemma pair_counts_get_support_pair:
  "(min a b, max a b) \<in> fst ` set (pair_counts s) \<Longrightarrow>
   pair_counts (snd (get_support s [a, b])) = pair_counts s"
  by (simp add: get_support_state getitem_present sort_pair_nth_Suc del: sort_key_simps)

lemma pair_counts_get_confidence:
  "(min a b, max a b) \<in> fst ` set (pair_counts s) \<Longrightarrow>
   pair_counts (snd (get_confidence s a b)) = pair_counts s"
  by (simp add: get_confidence_def Let_def split_def pair_counts_get_support_single
      pair_counts_get_support_pair)

lemma pair_counts_get_lift:
  "(min a b, max a b) \<in> fst ` set (pair_counts s) \<Longrightarrow>
   pair_counts (snd (get_lift s a b)) = pair_counts s"
  by (simp add: get_lift_def Let_def split_def pair_counts_get_support_single
      pair_counts_get_confidence)

lemma affinity_step_ok:
  assumes tot: "total_transactions s \<noteq> 0"
    and key: "(a, b) \<in> fst ` set (pair_counts s)" and le: "a \<le> b"
  shows "fst (affinity_step ms mc s ((a, b), c)) = Inr (pair_rows ms mc s ((a, b), c))"
    and "pair_counts (snd (affinity_step ms mc s ((a, b), c))) = pair_counts s"
    and "same_counts s (snd (affinity_step ms mc s ((a, b), c)))"
    and "well_formed s \<Longrightarrow> well_formed (snd (affinity_step ms mc s ((a, b), c)))"
proof -
  define s1 where "s1 = snd (get_confidence s a b)"
  define s2 where "s2 = snd (get_confidence s1 b a)"
  define s3 where "s3 = snd (get_lift s2 a b)"
  define s4 where "s4 = snd (get_lift s3 b a)"
  have mm: "(min a b, max a b) = (a, b)" "(min b a, max b a) = (a, b)"
    using le by (auto simp: min_def max_def)
  have p1: "pair_counts s1 = pair_counts s"
    unfolding s1_def using key by (simp add: pair_counts_get_confidence mm)
  have p2: "pair_counts s2 = pair_counts s"
    unfolding s2_def using key p1 by (simp add: pair_counts_get_confidence mm)
  have p3: "pair_counts s3 = pair_counts s"
    unfolding s3_def using key p2 by (simp add: pair_counts_get_lift mm)
  have p4: "pair_counts s4 = pair_counts s"
    unfolding s4_def using key p3 by (simp add: pair_counts_get_lift mm)
  have c1: "same_counts s s1"
    unfolding s1_def by (rule get_confidence_same)
  have c2: "same_counts s s2"
    unfolding s2_def by (rule same_counts_trans [OF c1 get_confidence_same])
  have c3: "same_counts s s3"
    unfolding s3_def by (rule same_counts_trans [OF c2 get_lift_same])
  have c4: "same_counts s s4"
    unfolding s4_def by (rule same_counts_trans [OF c3 get_lift_same])
  have v2: "fst (get_confidence s1 b a) = fst (get_confidence s b a)"
    by (rule get_confidence_cong [OF same_counts_sym [OF c1]])
  have v3: "fst (get_lift s2 a b) = fst (get_lift s a b)"
    by (rule get_lift_cong [OF same_counts_sym [OF c2]])
  have v4: "fst (get_lift s3 b a) = fst (get_lift s b a)"
    by (rule get_lift_cong [OF same_counts_sym [OF c3]])
  have unfold: "affinity_step ms mc s ((a, b), c) =
      (if of_nat c / of_nat (total_transactions s) < ms then (Inr [], s)
       else if fst (get_confidence s a b) < mc \<and> fst (get_confidence s b a) < mc
         then (Inr [], s2)
       else (Inr [result_row a b (of_nat c / of_nat (total_transactions s))
                    (fst (get_confidence s a b)) (fst (get_lift s a b)),
                  result_row b a (of_nat c / of_nat (total_transactions s))
                    (fst (get_confidence s b a)) (fst (get_lift s b a))], s4))"
    using tot
    by (simp add: affinity_step_def Let_def split_def s1_def [symmetric] v2
        s2_def [symmetric] v3 s3_def [symmetric] v4 s4_def [symmetric])
  show "fst (affinity_step ms mc s ((a, b), c)) = Inr (pair_rows ms mc s ((a, b), c))"
    by (simp add: unfold pair_rows_def Let_def)
  show "pair_counts (snd (affinity_step ms mc s ((a, b), c))) = pair_counts s"
    by (simp add: unfold p2 p4)
  show "same_counts s (snd (affinity_step ms mc s ((a, b), c)))"
    by (simp add: unfold c2 c4 same_counts_refl)
  show "well_formed (snd (affinity_step ms mc s ((a, b), c)))" if "well_formed s"
    using that
    by (simp add: unfold s1_def s2_def s3_def s4_def well_formed_get_confidence
        well_formed_get_lift)
qed

lemma pair_rows_cong:
  assumes "same_counts s t"
  shows "pair_rows ms mc s e = pair_rows ms mc t e"
proof -
  have "total_transactions s = total_transactions t"
    using assms by (simp add: same_counts_def)
  moreover have "fst (get_confidence s a b) = fst (get_confidence t a b)" for a b
    by (rule get_confidence_cong [OF assms])
  moreover have "fst (get_lift s a b) = fst (get_lift t a b)" for a b
    by (rule get_lift_cong [OF assms])
  ultimately show ?thesis
    by (simp add: pair_rows_def Let_def)
qed

lemma affinities_loop_ok:
  assumes "total_transactions s \<noteq> 0 \<or> entries = []"
    and "set entries \<subseteq> set (pair_counts s)"
    and "\<forall>p \<in> fst ` set (pair_counts s). fst p \<le> snd p"
    and "length (pair_counts s) = n"
  shows "fst (affinities_loop ms mc n entries results s)
           = Inr (results @ concat (map (pair_rows ms mc s) entries))
       \<and> pair_counts (snd (affinities_loop ms mc n entries results s)) = pair_counts s
       \<and> same_counts s (snd (affinities_loop ms mc n entries results s))
       \<and> (well_formed s \<longrightarrow> well_formed (snd (affinities_loop ms mc n entries results s)))"
  using assms
proof (induction entries arbitrary: results s)
  case Nil
  then show ?case by (simp add: same_counts_refl)
next
  case (Cons e entries)
  obtain a b c where e: "e = ((a, b), c)"
    by (metis surj_pair)
  from Cons.prems have tot: "total_transactions s \<noteq> 0" by simp
  from Cons.prems e have key: "(a, b) \<in> fst ` set (pair_counts s)"
    by force
  with Cons.prems have le: "a \<le> b" by force
  define s' where "s' = snd (affinity_step ms mc s e)"
  note step = affinity_step_ok [OF tot key le, of ms mc c, folded e, folded s'_def]
  have sc: "same_counts s s'" by (rule step(3))
  have tot': "total_transactions s' \<noteq> 0 \<or> entries = []"
    using tot sc by (simp add: same_counts_def)
  have IH: "fst (affinities_loop ms mc n entries (results @ pair_rows ms mc s e) s')
           = Inr ((results @ pair_rows ms mc s e) @ concat (map (pair_rows ms mc s') entries))
       \<and> pair_counts (snd (affinities_loop ms mc n entries (results @ pair_rows ms mc s e) s')) = pair_counts s'
       \<and> same_counts s' (snd (affinities_loop ms mc n entries (results @ pair_rows ms mc s e) s'))
       \<and> (well_formed s' \<longrightarrow> well_formed (snd (affinities_loop ms mc n entries (results @ pair_rows ms mc s e) s')))"
    using Cons.prems by (intro Cons.IH tot') (simp_all add: step(2))
  have run: "affinities_loop ms mc n (e # entries) results s
             = affinities_loop ms mc n entries (results @ pair_rows ms mc s e) s'"
    using Cons.prems(4) step(1)
    by (cases "affinity_step ms mc s e") (simp add: s'_def)
  have rows: "map (pair_rows ms mc s') entries = map (pair_rows ms mc s) entries"
    using pair_rows_cong [OF sc] by simp
  show ?case
    unfolding run using IH step(2) step(4) same_counts_trans [OF sc]
    by (simp add: rows)
qed

lemma get_updated_affinities_ok:
  assumes "well_formed s"
  shows "fst (get_updated_affinities s ms mc)
           = Inr (DataFrame_of (concat (map (pair_rows ms mc s) (pair_counts s))))"
    and "pair_counts (snd (get_updated_affinities s ms mc)) = pair_counts s"
    and "same_counts s (snd (get_updated_affinities s ms mc))"
    and "well_formed (snd (get_updated_affinities s ms mc))"
proof -
  have pre: "total_transactions s \<noteq> 0 \<or> pair_counts s = []"
    "\<forall>p \<in> fst ` set (pair_counts s). fst p \<le> snd p"
    using assms by (auto simp: well_formed_def)
  note loop = affinities_loop_ok [OF pre(1) subset_refl pre(2) refl, of ms mc "[]"]
  obtain r t where rt: "affinities_loop ms mc (length (pair_counts s)) (pair_counts s) [] s = (r, t)"
    by (cases "affinities_loop ms mc (length (pair_counts s)) (pair_counts s) [] s")
  from loop rt have r: "r = Inr (concat (map (pair_rows ms mc s) (pair_counts s)))"
    and t: "pair_counts t = pair_counts s" "same_counts s t" "well_formed t"
    using assms by simp_all
  have g: "get_updated_affinities s ms mc
           = (Inr (DataFrame_of (concat (map (pair_rows ms mc s) (pair_counts s)))), t)"
    by (simp add: get_updated_affinities_def rt r)
  show "fst (get_updated_affinities s ms mc)
           = Inr (DataFrame_of (concat (map (pair_rows ms mc s) (pair_counts s))))"
    and "pair_counts (snd (get_updated_affinities s ms mc)) = pair_counts s"
    and "same_counts s (snd (get_updated_affinities s ms mc))"
    and "well_formed (snd (get_updated_affinities s ms mc))"
    by (simp_all add: g t)
qed

section \<open>Invariants of the reachable states\<close>

lemma combinations2_sorted_le: "sorted xs \<Longrightarrow> (a, b) \<in> set (combinations2 xs) \<Longrightarrow> a \<le> b"
  by (induction xs) (auto dest: set_combinations2_subset)

lemma well_formed_update_with_new_transaction:
  assumes "well_formed s"
  shows "well_formed (update_with_new_transaction s basket)"
proof -
  have "\<forall>p \<in> set (combinations2 (sort basket)). fst p \<le> snd p"
    using combinations2_sorted_le [of "sort basket"] by auto
  then have "\<forall>p \<in> fst ` set (fold (\<lambda>k d. incr d k) (combinations2 (sort basket)) (pair_counts s)).
               fst p \<le> snd p"
    unfolding keys_fold_incr using assms by (auto simp: well_formed_def)
  then show ?thesis
    using assms
    by (simp add: well_formed_def update_with_new_transaction_eq distinct_fold_incr)
qed

lemma well_formed_update_with_batch:
  "well_formed s \<Longrightarrow> well_formed (update_with_batch s baskets)"
  by (induction baskets arbitrary: s)
     (simp_all add: update_with_batch_Nil update_with_batch_Cons
        well_formed_update_with_new_transaction)

lemma well_formed_init: "well_formed AffinityCache_init"
  by (simp add: well_formed_def AffinityCache_init_def)

lemma reachable_well_formed: "reachable s \<Longrightarrow> well_formed s"
  by (induction rule: reachable.induct)
     (simp_all add: well_formed_init well_formed_update_with_new_transaction
        well_formed_update_with_batch well_formed_get_support well_formed_get_confidence
        well_formed_get_lift get_updated_affinities_ok(4))

lemma counts_bounded_update_with_new_transaction:
  assumes "counts_bounded s" and "distinct basket"
  shows "counts_bounded (update_with_new_transaction s basket)"
proof -
  have item: "count_of (item_counts (update_with_new_transaction s basket)) x
              = count_of (item_counts s) x + (if x \<in> set basket then 1 else 0)" for x
    using assms(2) by (simp add: item_count_update_with_new_transaction count_list_distinct)
  have pair: "count_of (pair_counts (update_with_new_transaction s basket)) (a, b)
              = count_of (pair_counts s) (a, b)
                + (if a \<in> set basket \<and> b \<in> set basket \<and> a < b then 1 else 0)" for a b
    using assms(2) by (rule pair_count_update_with_new_transaction)
  have i0: "count_of (item_counts s) x \<le> total_transactions s" for x
    using assms(1) by (simp add: counts_bounded_def)
  have p0: "count_of (pair_counts s) (a, b) \<le> count_of (item_counts s) a"
    "count_of (pair_counts s) (a, b) \<le> count_of (item_counts s) b" for a b
    using assms(1) by (simp_all add: counts_bounded_def)
  show ?thesis
    unfolding counts_bounded_def
  proof (intro conjI allI)
    fix x
    show "count_of (item_counts (update_with_new_transaction s basket)) x
          \<le> total_transactions (update_with_new_transaction s basket)"
      using i0 [of x] by (simp add: item total_update_with_new_transaction)
  next
    fix a b
    show "count_of (pair_counts (update_with_new_transaction s basket)) (a, b)
          \<le> min (count_of (item_counts (update_with_new_transaction s basket)) a)
                 (count_of (item_counts (update_with_new_transaction s basket)) b)"
      using p0 [of a b] by (simp add: item pair)
  qed
qed

lemma counts_bounded_update_with_batch:
  "counts_bounded s \<Longrightarrow> \<forall>b \<in> set baskets. distinct b \<Longrightarrow>
   counts_bounded (update_with_batch s baskets)"
  by (induction baskets arbitrary: s)
     (simp_all add: update_with_batch_Nil update_with_batch_Cons
        counts_bounded_update_with_new_transaction)

lemma counts_bounded_same: "same_counts s t \<Longrightarrow> counts_bounded s \<Longrightarrow> counts_bounded t"
  by (simp add: same_counts_def counts_bounded_def)

lemma counts_bounded_init: "counts_bounded AffinityCache_init"
  by (simp add: counts_bounded_def AffinityCache_init_def count_of_def)

lemma reachable_counts_bounded: "reachable s \<Longrightarrow> counts_bounded s"
proof (induction rule: reachable.induct)
  case init
  show ?case by (rule counts_bounded_init)
next
  case (ingest s basket)
  then show ?case by (simp add: counts_bounded_update_with_new_transaction)
next
  case (ingest_batch s baskets)
  then show ?case by (simp add: counts_bounded_update_with_batch)
next
  case (query_support s itemset)
  then show ?case by (intro counts_bounded_same [OF get_support_same])
next
  case (query_confidence s a b)
  then show ?case by (intro counts_bounded_same [OF get_confidence_same])
next
  case (query_lift s a b)
  then show ?case by (intro counts_bounded_same [OF get_lift_same])
next
  case (query_affinities s ms mc)
  then show ?case
    by (intro counts_bounded_same [OF get_updated_affinities_ok(3)] reachable_well_formed)
qed

lemma entry_count_of: "distinct (map fst d) \<Longrightarrow> (k, c) \<in> set d \<Longrightarrow> count_of d k = c"
  by (simp add: count_of_def)

text \<open>
  C7. In every state reachable from the empty cache, every item's count is at most
  \<open>total_transactions\<close> and every pair's count is at most the smaller of the counts of
  its two members, both for the counts read off the dictionaries and for their entries;
  ingesting a basket, or a batch of baskets, keeps the two bounds.
\<close>

theorem counts_bounded_invariant:
  "(reachable s \<longrightarrow>
      counts_bounded s
      \<and> (\<forall>(x, c) \<in> set (item_counts s). c \<le> total_transactions s)
      \<and> (\<forall>((a, b), c) \<in> set (pair_counts s).
            c \<le> min (count_of (item_counts s) a) (count_of (item_counts s) b)))
   \<and> (counts_bounded s \<longrightarrow> distinct basket
        \<longrightarrow> counts_bounded (update_with_new_transaction s basket))
   \<and> (counts_bounded s \<longrightarrow> (\<forall>b \<in> set baskets. distinct b)
        \<longrightarrow> counts_bounded (update_with_batch s baskets))"
proof (intro conjI impI)
  assume r: "reachable s"
  then show cb: "counts_bounded s" by (rule reachable_counts_bounded)
  from r have wf: "well_formed s" by (rule reachable_well_formed)
  show "\<forall>(x, c) \<in> set (item_counts s). c \<le> total_transactions s"
  proof clarify
    fix x c assume "(x, c) \<in> set (item_counts s)"
    then have "count_of (item_counts s) x = c"
      using wf by (intro entry_count_of) (simp add: well_formed_def)
    then show "c \<le> total_transactions s"
      using cb by (auto simp: counts_bounded_def)
  qed
  show "\<forall>((a, b), c) \<in> set (pair_counts s).
          c \<le> min (count_of (item_counts s) a) (count_of (item_counts s) b)"
  proof clarify
    fix a b c assume "((a, b), c) \<in> set (pair_counts s)"
    then have "count_of (pair_counts s) (a, b) = c"
      using wf by (intro entry_count_of) (simp add: well_formed_def)
    then show "c \<le> min (count_of (item_counts s) a) (count_of (item_counts s) b)"
      using cb by (auto simp: counts_bounded_def)
  qed
next
  assume "counts_bounded s" "distinct basket"
  then show "counts_bounded (update_with_new_transaction s basket)"
    by (rule counts_bounded_update_with_new_transaction)
next
  assume "counts_bounded s" "\<forall>b \<in> set baskets. distinct b"
  then show "counts_bounded (update_with_batch s baskets)"
    by (rule counts_bounded_update_with_batch)
qed

theorem counts_bounded_invariant_witness:
  "reachable (update_with_batch AffinityCache_init [[''A'', ''B''], [''C'', ''B'', ''A'']])
   \<and> item_counts (update_with_batch AffinityCache_init [[''A'', ''B''], [''C'', ''B'', ''A'']])
       = [(''A'', 2), (''B'', 2), (''C'', 1)]
   \<and> counts_bounded (update_with_batch AffinityCache_init [[''A'', ''B''], [''C'', ''B'', ''A'']])
   \<and> distinct [''C'', ''D'']
   \<and> counts_bounded (update_with_new_transaction
         (update_with_batch AffinityCache_init [[''A'', ''B''], [''C'', ''B'', ''A'']]) [''C'', ''D''])
   \<and> counts_bounded (update_with_batch
         (update_with_batch AffinityCache_init [[''A'', ''B''], [''C'', ''B'', ''A'']])
         [[''C'', ''D''], [''A'']])"
proof -
  let ?s = "update_with_batch AffinityCache_init [[''A'', ''B''], [''C'', ''B'', ''A'']]"
  have d0: "\<forall>basket \<in> set [[''A'', ''B''], [''C'', ''B'', ''A'']]. distinct basket"
    by simp
  have r: "reachable ?s"
    by (rule reachable.ingest_batch [OF reachable.init d0])
  have d1: "distinct [''C'', ''D'']"
    by simp
  have d2: "\<forall>b \<in> set [[''C'', ''D''], [''A'']]. distinct b"
    by simp
  have ic: "item_counts ?s = [(''A'', 2), (''B'', 2), (''C'', 1)]"
    by code_simp
  note th = counts_bounded_invariant [of ?s "[''C'', ''D'']" "[[''C'', ''D''], [''A'']]"]
  from th r have cb: "counts_bounded ?s"
    by blast
  from th cb d1 have c1: "counts_bounded (update_with_new_transaction ?s [''C'', ''D''])"
    by blast
  from th cb d2 have c2: "counts_bounded (update_with_batch ?s [[''C'', ''D''], [''A'']])"
    by blast
  show ?thesis
    using r ic cb d1 c1 c2 by (intro conjI)
qed

section \<open>Degenerate inputs and side effects of the queries\<close>

text \<open>
  C4. Ingesting an empty basket is not a no-op: \<open>update_with_new_transaction\<close> counts the
  transaction before it looks at the basket.
\<close>

theorem empty_basket_counts_counterexample:
  "total_transactions (update_with_new_transaction AffinityCache_init ([] :: string list)) = 1
   \<and> total_transactions (AffinityCache_init :: string AffinityCache) = 0
   \<and> update_with_new_transaction AffinityCache_init ([] :: string list) \<noteq> AffinityCache_init"
  by (simp add: update_with_new_transaction_eq AffinityCache_init_def)

text \<open>
  C4 (as the code has it). Ingesting an empty batch leaves the whole cache unchanged;
  ingesting an empty basket raises nothing and changes nothing but \<open>total_transactions\<close>,
  which grows by one.
\<close>

theorem empty_ingestion:
  "update_with_batch s [] = s
   \<and> update_with_new_transaction s [] = s\<lparr>total_transactions := total_transactions s + 1\<rparr>"
  by (simp add: update_with_batch_Nil update_with_new_transaction_eq)

text \<open>
  C6. The queries are not read-only. After one basket \<open>{A}\<close>, asking for the support of the
  unseen pair \<open>(A, B)\<close> stores the key \<open>(A, B)\<close> with count 0 in \<open>pair_counts\<close>, asking for
  the confidence of \<open>B \<rightarrow> A\<close> stores \<open>B\<close> with count 0 in \<open>item_counts\<close>, and the
  statistics report one more pair afterwards.
\<close>

theorem get_support_inserts_key:
  "pair_counts (update_with_new_transaction AffinityCache_init [''A'']) = []
   \<and> pair_counts (snd (get_support (update_with_new_transaction AffinityCache_init [''A''])
         [''A'', ''B''])) = [((''A'', ''B''), 0)]
   \<and> item_counts (update_with_new_transaction AffinityCache_init [''A'']) = [(''A'', 1)]
   \<and> item_counts (snd (get_confidence (update_with_new_transaction AffinityCache_init [''A''])
         ''B'' ''A'')) = [(''A'', 1), (''B'', 0)]
   \<and> unique_pairs (get_statistics (update_with_new_transaction AffinityCache_init [''A''])) = 0
   \<and> unique_pairs (get_statistics (snd (get_support
         (update_with_new_transaction AffinityCache_init [''A'']) [''A'', ''B'']))) = 1
   \<and> most_frequent_pair (get_statistics (update_with_new_transaction AffinityCache_init [''A'']))
       = None
   \<and> most_frequent_pair (get_statistics (snd (get_lift
         (update_with_new_transaction AffinityCache_init [''A'']) ''A'' ''B'')))
       = Some (''A'', ''B'')"
  by code_simp

text \<open>
  C8. \<open>calculate_support\<close> has no arity restriction: one basket \<open>{A, B, C}\<close> gives the
  triple \<open>(A, B, C)\<close>, and the empty itemset, support 1.
\<close>

theorem calculate_support_arity_counterexample:
  "length [''A'', ''B'', ''C''] \<noteq> 1 \<and> length [''A'', ''B'', ''C''] \<noteq> 2
   \<and> calculate_support
        (snd (build_transaction_baskets (MarketBasketAnalyzer_init (1 / 100) (1 / 10))
           [(''T1'', ''A''), (''T1'', ''B''), (''T1'', ''C'')]))
        [''A'', ''B'', ''C''] = 1
   \<and> length ([] :: string list) \<noteq> 1 \<and> length ([] :: string list) \<noteq> 2
   \<and> calculate_support
        (snd (build_transaction_baskets (MarketBasketAnalyzer_init (1 / 100) (1 / 10))
           [(''T1'', ''A''), (''T1'', ''B''), (''T1'', ''C'')]))
        [] = 1"
  by code_simp

text \<open>
  C8 (as the code has it). For an itemset of any arity other than 1 and 2 the cache's
  \<open>get_support\<close> returns 0 and leaves the cache unchanged. \<open>calculate_support\<close> returns 0
  exactly when there are no transactions or no basket contains every item of the itemset.
\<close>

theorem support_unsupported_arity:
  "(length itemset \<noteq> 1 \<and> length itemset \<noteq> 2 \<longrightarrow> get_support s itemset = (0, s))
   \<and> (calculate_support self itemset = 0 \<longleftrightarrow>
        mba_total_transactions self = 0
        \<or> (\<forall>basket \<in> set (transaction_baskets self). \<not> set itemset \<subseteq> set basket))"
  by (auto simp: get_support_def calculate_support_def Let_def filter_empty_conv)

theorem support_unsupported_arity_witness:
  "length [''A'', ''B'', ''C''] \<noteq> 1 \<and> length [''A'', ''B'', ''C''] \<noteq> 2
   \<and> get_support (update_with_batch AffinityCache_init [[''A'', ''B'', ''C'']]) [''A'', ''B'', ''C'']
       = (0, update_with_batch AffinityCache_init [[''A'', ''B'', ''C'']])
   \<and> mba_total_transactions
        (snd (build_transaction_baskets (MarketBasketAnalyzer_init (1 / 100) (1 / 10))
           [(''T1'', ''A''), (''T2'', ''B'')])) = 2
   \<and> calculate_support
        (snd (build_transaction_baskets (MarketBasketAnalyzer_init (1 / 100) (1 / 10))
           [(''T1'', ''A''), (''T2'', ''B'')]))
        [''A'', ''B'', ''C''] = 0"
proof -
  let ?s = "update_with_batch AffinityCache_init [[''A'', ''B'', ''C'']]"
  let ?m = "snd (build_transaction_baskets (MarketBasketAnalyzer_init (1 / 100) (1 / 10))
           [(''T1'', ''A''), (''T2'', ''B'')])"
  note th = support_unsupported_arity [of "[''A'', ''B'', ''C'']" ?s ?m]
  have len: "length [''A'', ''B'', ''C''] \<noteq> 1 \<and> length [''A'', ''B'', ''C''] \<noteq> 2"
    by simp
  from th len have g: "get_support ?s [''A'', ''B'', ''C''] = (0, ?s)"
    by blast
  have tb: "transaction_baskets ?m = [[''A''], [''B'']]"
    by code_simp
  have none: "\<forall>basket \<in> set (transaction_baskets ?m). \<not> set [''A'', ''B'', ''C''] \<subseteq> set basket"
    unfolding tb by simp
  from th none have c: "calculate_support ?m [''A'', ''B'', ''C''] = 0"
    by blast
  have t: "mba_total_transactions ?m = 2"
    by code_simp
  show ?thesis
    using len g t c by (intro conjI) simp_all
qed

section \<open>The empty store and the symmetry of lift\<close>

lemma get_support_init: "get_support AffinityCache_init itemset = (0, AffinityCache_init)"
  by (simp add: get_support_def AffinityCache_init_def)

lemma get_confidence_init: "get_confidence AffinityCache_init a b = (0, AffinityCache_init)"
  by (simp add: get_confidence_def get_support_init)

lemma get_lift_init: "get_lift AffinityCache_init a b = (0, AffinityCache_init)"
  by (simp add: get_lift_def get_confidence_init get_support_init)

lemma get_updated_affinities_init:
  "get_updated_affinities AffinityCache_init ms mc
     = (Inr \<lparr>columns = [], rows = []\<rparr>, AffinityCache_init)"
proof -
  have "pair_counts (AffinityCache_init :: 'a AffinityCache) = []"
    by (simp add: AffinityCache_init_def)
  then show ?thesis
    by (simp add: get_updated_affinities_def DataFrame_of_def)
qed

lemmas queries_init =
  get_support_init get_confidence_init get_lift_init get_updated_affinities_init

lemma reachable_no_transactions:
  "reachable s \<Longrightarrow> total_transactions s = 0 \<Longrightarrow> s = AffinityCache_init"
proof (induction rule: reachable.induct)
  case init
  show ?case by simp
next
  case (ingest s basket)
  then show ?case by (simp add: total_update_with_new_transaction)
next
  case (ingest_batch s baskets)
  then show ?case by (simp add: total_update_with_batch update_with_batch_Nil)
next
  case (query_support s itemset)
  have "total_transactions s = total_transactions (snd (get_support s itemset))"
    using get_support_same [of s itemset] by (simp add: same_counts_def)
  with query_support show ?case by (simp add: queries_init)
next
  case (query_confidence s a b)
  have "total_transactions s = total_transactions (snd (get_confidence s a b))"
    using get_confidence_same [of s a b] by (simp add: same_counts_def)
  with query_confidence show ?case by (simp add: queries_init)
next
  case (query_lift s a b)
  have "total_transactions s = total_transactions (snd (get_lift s a b))"
    using get_lift_same [of s a b] by (simp add: same_counts_def)
  with query_lift show ?case by (simp add: queries_init)
next
  case (query_affinities s ms mc)
  have "total_transactions s = total_transactions (snd (get_updated_affinities s ms mc))"
    using get_updated_affinities_ok(3) [OF reachable_well_formed [OF query_affinities.hyps], of ms mc]
    by (simp add: same_counts_def)
  with query_affinities show ?case by (simp add: queries_init)
qed

text \<open>
  C9. In a reachable state with no transactions every query returns zero, or the empty
  table, and leaves the cache as it is; and in every reachable state
  \<open>get_updated_affinities\<close> returns a table, so its division by \<open>total_transactions\<close> is
  never reached with a zero total.
\<close>

theorem empty_store_queries:
  assumes "reachable s"
  shows "(total_transactions s = 0 \<longrightarrow>
            get_support s itemset = (0, s) \<and> get_confidence s a b = (0, s)
            \<and> get_lift s a b = (0, s)
            \<and> get_updated_affinities s ms mc = (Inr \<lparr>columns = [], rows = []\<rparr>, s)
            \<and> get_statistics s
                = \<lparr>stat_total_transactions = 0, unique_products = 0, unique_pairs = 0,
                   most_frequent_item = None, most_frequent_pair = None\<rparr>)
       \<and> fst (get_updated_affinities s ms mc) \<noteq> Inl ZeroDivisionError
       \<and> (\<exists>df. fst (get_updated_affinities s ms mc) = Inr df)"
proof (intro conjI impI)
  assume "total_transactions s = 0"
  with assms have s: "s = AffinityCache_init"
    by (rule reachable_no_transactions)
  show "get_support s itemset = (0, s)" "get_confidence s a b = (0, s)" "get_lift s a b = (0, s)"
    "get_updated_affinities s ms mc = (Inr \<lparr>columns = [], rows = []\<rparr>, s)"
    unfolding s by (rule queries_init)+
  show "get_statistics s
          = \<lparr>stat_total_transactions = 0, unique_products = 0, unique_pairs = 0,
             most_frequent_item = None, most_frequent_pair = None\<rparr>"
    unfolding s by (simp add: get_statistics_def AffinityCache_init_def)
next
  have ok: "fst (get_updated_affinities s ms mc)
            = Inr (DataFrame_of (concat (map (pair_rows ms mc s) (pair_counts s))))"
    by (rule get_updated_affinities_ok(1) [OF reachable_well_formed [OF assms]])
  then show "fst (get_updated_affinities s ms mc) \<noteq> Inl ZeroDivisionError"
    by simp
  from ok show "\<exists>df. fst (get_updated_affinities s ms mc) = Inr df"
    by blast
qed

theorem empty_store_queries_witness:
  "reachable (AffinityCache_init :: string AffinityCache)
   \<and> total_transactions (AffinityCache_init :: string AffinityCache) = 0
   \<and> get_support AffinityCache_init [''A'', ''B''] = (0, AffinityCache_init)
   \<and> get_confidence AffinityCache_init ''A'' ''B'' = (0, AffinityCache_init)
   \<and> get_lift AffinityCache_init ''A'' ''B'' = (0, AffinityCache_init)
   \<and> get_updated_affinities (AffinityCache_init :: string AffinityCache) (1 / 100) (1 / 10)
       = (Inr \<lparr>columns = [], rows = []\<rparr>, AffinityCache_init)
   \<and> reachable (snd (get_support (update_with_new_transaction AffinityCache_init [''A''])
         [''A'', ''B'']))
   \<and> fst (get_updated_affinities
         (snd (get_support (update_with_new_transaction AffinityCache_init [''A''])
            [''A'', ''B''])) 0 0)
       = Inr \<lparr>columns = [''product_a'', ''product_b'', ''support'', ''confidence'', ''lift'',
                        ''direction''],
              rows = [result_row ''A'' ''B'' 0 0 0, result_row ''B'' ''A'' 0 0 0]\<rparr>"
proof -
  have r: "reachable (AffinityCache_init :: string AffinityCache)"
    by (rule reachable.init)
  have t: "total_transactions (AffinityCache_init :: string AffinityCache) = 0"
    by (simp add: AffinityCache_init_def)
  note th = empty_store_queries [OF r, of "[''A'', ''B'']" "''A''" "''B''" "1 / 100" "1 / 10"]
  have r2: "reachable (snd (get_support (update_with_new_transaction AffinityCache_init [''A''])
         [''A'', ''B'']))"
    by (intro reachable.query_support reachable.ingest reachable.init) simp
  have v: "fst (get_updated_affinities
         (snd (get_support (update_with_new_transaction AffinityCache_init [''A''])
            [''A'', ''B''])) 0 0)
       = Inr \<lparr>columns = [''product_a'', ''product_b'', ''support'', ''confidence'', ''lift'',
                        ''direction''],
              rows = [result_row ''A'' ''B'' 0 0 0, result_row ''B'' ''A'' 0 0 0]\<rparr>"
    by code_simp
  show ?thesis
    using th t r r2 v by simp
qed

lemma get_support_pair_commute: "fst (get_support s [a, b]) = fst (get_support s [b, a])"
proof -
  have "(sort [a, b] ! 0, sort [a, b] ! Suc 0) = (sort [b, a] ! 0, sort [b, a] ! Suc 0)"
    unfolding sort_pair_nth_Suc by (simp add: min.commute max.commute)
  then show ?thesis
    by (simp add: get_support_value del: sort_key_simps)
qed

lemma calculate_support_pair_commute:
  "calculate_support self [a, b] = calculate_support self [b, a]"
proof -
  have "set [a, b] = set [b, a]" by auto
  then show ?thesis
    unfolding calculate_support_def by (simp only:)
qed

text \<open>
  C10. For two items with nonzero support, the lift of \<open>a \<rightarrow> b\<close> equals the lift of
  \<open>b \<rightarrow> a\<close>, both being the support of the pair divided by the product of the two item
  supports, in the cache and in the batch analyzer alike. Confidence is not symmetric.
\<close>

theorem lift_symmetric:
  "(fst (get_support s [a]) \<noteq> 0 \<and> fst (get_support s [b]) \<noteq> 0 \<longrightarrow>
      fst (get_lift s a b) = fst (get_lift s b a)
      \<and> fst (get_lift s a b)
          = fst (get_support s [a, b]) / (fst (get_support s [a]) * fst (get_support s [b])))
   \<and> (calculate_support self [a] \<noteq> 0 \<and> calculate_support self [b] \<noteq> 0 \<longrightarrow>
      calculate_lift self a b = calculate_lift self b a
      \<and> calculate_lift self a b
          = calculate_support self [a, b]
              / (calculate_support self [a] * calculate_support self [b]))"
proof (intro conjI impI)
  assume nz: "fst (get_support s [a]) \<noteq> 0 \<and> fst (get_support s [b]) \<noteq> 0"
  then show "fst (get_lift s a b) = fst (get_lift s b a)"
    by (simp add: get_lift_value get_confidence_value get_support_pair_commute [of s b a])
  from nz show "fst (get_lift s a b)
          = fst (get_support s [a, b]) / (fst (get_support s [a]) * fst (get_support s [b]))"
    by (simp add: get_lift_value get_confidence_value)
next
  assume nz: "calculate_support self [a] \<noteq> 0 \<and> calculate_support self [b] \<noteq> 0"
  then show "calculate_lift self a b = calculate_lift self b a"
    by (simp add: calculate_lift_def calculate_confidence_def
        calculate_support_pair_commute [of self b a])
  from nz show "calculate_lift self a b
          = calculate_support self [a, b]
              / (calculate_support self [a] * calculate_support self [b])"
    by (simp add: calculate_lift_def calculate_confidence_def)
qed

theorem lift_symmetric_witness:
  "fst (get_support (update_with_batch AffinityCache_init [[''A'', ''B''], [''A'']]) [''A'']) = 1
   \<and> fst (get_support (update_with_batch AffinityCache_init [[''A'', ''B''], [''A'']]) [''B''])
       = 1 / 2
   \<and> fst (get_lift (update_with_batch AffinityCache_init [[''A'', ''B''], [''A'']]) ''A'' ''B'')
       = fst (get_lift (update_with_batch AffinityCache_init [[''A'', ''B''], [''A'']]) ''B'' ''A'')
   \<and> fst (get_lift (update_with_batch AffinityCache_init [[''A'', ''B''], [''A'']]) ''A'' ''B'') = 1
   \<and> fst (get_confidence (update_with_batch AffinityCache_init [[''A'', ''B''], [''A'']]) ''A'' ''B'')
       = 1 / 2
   \<and> fst (get_confidence (update_with_batch AffinityCache_init [[''A'', ''B''], [''A'']]) ''B'' ''A'')
       = 1
   \<and> calculate_support (snd (build_transaction_baskets (MarketBasketAnalyzer_init (1 / 100) (1 / 10))
         [(''T1'', ''A''), (''T1'', ''B''), (''T2'', ''A'')])) [''A''] = 1
   \<and> calculate_support (snd (build_transaction_baskets (MarketBasketAnalyzer_init (1 / 100) (1 / 10))
         [(''T1'', ''A''), (''T1'', ''B''), (''T2'', ''A'')])) [''B''] = 1 / 2
   \<and> calculate_lift (snd (build_transaction_baskets (MarketBasketAnalyzer_init (1 / 100) (1 / 10))
         [(''T1'', ''A''), (''T1'', ''B''), (''T2'', ''A'')])) ''A'' ''B''
       = calculate_lift (snd (build_transaction_baskets (MarketBasketAnalyzer_init (1 / 100) (1 / 10))
         [(''T1'', ''A''), (''T1'', ''B''), (''T2'', ''A'')])) ''B'' ''A''"
proof -
  let ?s = "update_with_batch AffinityCache_init [[''A'', ''B''], [''A'']]"
  let ?m = "snd (build_transaction_baskets (MarketBasketAnalyzer_init (1 / 100) (1 / 10))
         [(''T1'', ''A''), (''T1'', ''B''), (''T2'', ''A'')])"
  have sa: "fst (get_support ?s [''A'']) = 1" by code_simp
  have sb: "fst (get_support ?s [''B'']) = 1 / 2" by code_simp
  have sab: "fst (get_support ?s [''A'', ''B'']) = 1 / 2" by code_simp
  have ca: "fst (get_confidence ?s ''A'' ''B'') = 1 / 2" by code_simp
  have cb: "fst (get_confidence ?s ''B'' ''A'') = 1" by code_simp
  have ma: "calculate_support ?m [''A''] = 1" by code_simp
  have mb: "calculate_support ?m [''B''] = 1 / 2" by code_simp
  note th = lift_symmetric [of ?s "''A''" "''B''" ?m]
  show ?thesis
    using th sa sb sab ca cb ma mb by simp
qed

section \<open>The rules a pair contributes\<close>




















section \<open>The empty rule table and the product names\<close>

text \<open>
  C5. With a table of product names supplied, \<open>analyze\<close> raises \<open>KeyError\<close> on an input
  with no transactions, and on an input none of whose pairs passes the thresholds: the
  empty result frame has no column \<open>product_a\<close> to map. Without names both inputs give
  the empty table.
\<close>

theorem analyze_empty_with_names:
  "fst (analyze (MarketBasketAnalyzer_init (1 / 100) (1 / 10)) ([] :: (string \<times> string) list)
          (Some [(''P001'', ''Milk'')]))
     = Inl (KeyError ''product_a'')
   \<and> fst (analyze (MarketBasketAnalyzer_init (1 / 100) (1 / 10))
          [(''T1'', ''P001''), (''T2'', ''P002'')]
          (Some [(''P001'', ''Milk''), (''P002'', ''Bread'')]))
     = Inl (KeyError ''product_a'')
   \<and> fst (analyze (MarketBasketAnalyzer_init (1 / 100) (1 / 10)) ([] :: (string \<times> string) list)
          None)
     = Inr \<lparr>columns = [], rows = []\<rparr>
   \<and> fst (analyze (MarketBasketAnalyzer_init (1 / 100) (1 / 10))
          [(''T1'', ''P001''), (''T2'', ''P002'')] None)
     = Inr \<lparr>columns = [], rows = []\<rparr>"
  by code_simp

section \<open>Batch analysis against the incremental cache\<close>














end
